theory Spec2Isabelle
  imports Main "HOL-Library.Word"
begin

unbundle bit_operations_syntax

section \<open>The device allocator: \<open>tun_alloc\<close>\<close>

text \<open>
  \<open>tun_alloc\<close> of \<open>helpers/linux/iface.c\<close> talks to the kernel through \<open>open\<close>,
  \<open>ioctl(fd, TUNSETIFF, &ifr)\<close> and \<open>close\<close>. Each call the process makes is recorded,
  with the value the kernel answered, in a log; the kernel is a deterministic
  function of the log so far, which lets its answers change from one call to the next.
\<close>

record ifreq =
  ifr_name :: string
  ifr_flags :: "16 word"

datatype event =
    EvOpen string int int
  | EvIoctl int ifreq int
  | EvClose int

record kernel =
  k_open :: "event list \<Rightarrow> string \<Rightarrow> int \<times> int"
  k_ioctl :: "event list \<Rightarrow> int \<Rightarrow> ifreq \<Rightarrow> int"

text \<open>
  The two function-local \<open>static\<close> variables of \<open>tun_alloc\<close> live as long as the
  process does; together with the log they are the process state.
\<close>

record proc =
  retried :: bool
  tun_dev :: string
  events :: "event list"

definition proc_init :: proc where
  "proc_init = \<lparr>retried = False, tun_dev = ''/dev/net/tun'', events = []\<rparr>"

text \<open>Constants of the Linux headers \<open>errno-base.h\<close> and \<open>linux/if.h\<close>.\<close>

definition EINVAL :: int where "EINVAL = 22"
definition ENOENT :: int where "ENOENT = 2"
definition IFNAMSIZ :: nat where "IFNAMSIZ = 16"

text \<open>
  \<open>strncpy(dst, src, n)\<close> into a buffer that was zeroed before and is longer than
  \<open>n\<close>: the buffer then holds the first \<open>n\<close> characters of \<open>src\<close>, terminated.
\<close>

definition strncpy :: "string \<Rightarrow> nat \<Rightarrow> string" where
  "strncpy src n = take n src"

text \<open>
  A \<open>const char *\<close> argument is \<open>None\<close> for the null pointer. The function returns
  the C return value and the process state after the call. The self-call of line 56
  happens with \<open>retried\<close> set, which is what bounds the recursion.
\<close>

function tun_alloc :: "kernel \<Rightarrow> proc \<Rightarrow> string option \<Rightarrow> int \<Rightarrow> int \<times> proc" where
  "tun_alloc k s dev flags =
     (case dev of
        None \<Rightarrow> (- EINVAL, s)
      | Some d \<Rightarrow>
          if d = [] then (- EINVAL, s)
          else
            let ifr = \<lparr>ifr_name = strncpy d (IFNAMSIZ - 1), ifr_flags = word_of_int flags\<rparr>;
                (fd, err) = k_open k (events s) (tun_dev s);
                s1 = s\<lparr>events := events s @ [EvOpen (tun_dev s) fd err]\<rparr>
            in
              if fd < 0 then
                (if \<not> retried s \<and> err = ENOENT
                 then tun_alloc k (s1\<lparr>retried := \<not> retried s, tun_dev := ''/dev/tun''\<rparr>)
                        dev flags
                 else (fd, s1))
              else
                let retval = k_ioctl k (events s1) fd ifr;
                    s2 = s1\<lparr>events := events s1 @ [EvIoctl fd ifr retval]\<rparr>
                in
                  if retval < 0 then (retval, s2\<lparr>events := events s2 @ [EvClose fd]\<rparr>)
                  else (fd, s2))"
  by pat_completeness auto
termination
  by (relation "measure (\<lambda>(k, s, dev, flags). if retried s then 0 else 1)") auto

text \<open>
  The part of the log that one call appended, and the device nodes a log opened.
\<close>

definition call_log :: "proc \<Rightarrow> proc \<Rightarrow> event list" where
  "call_log s s' = drop (length (events s)) (events s')"

fun opened_paths :: "event list \<Rightarrow> string list" where
  "opened_paths [] = []"
| "opened_paths (EvOpen p fd e # es) = p # opened_paths es"
| "opened_paths (EvIoctl fd ifr rv # es) = opened_paths es"
| "opened_paths (EvClose fd # es) = opened_paths es"

text \<open>
  A process that calls \<open>tun_alloc\<close> again and again: the state it ends in, and the
  number of calls that changed the remembered device node.
\<close>

fun tun_alloc_calls :: "kernel \<Rightarrow> proc \<Rightarrow> (string option \<times> int) list \<Rightarrow> proc" where
  "tun_alloc_calls k s [] = s"
| "tun_alloc_calls k s ((dev, flags) # cs) =
     tun_alloc_calls k (snd (tun_alloc k s dev flags)) cs"

fun switches :: "kernel \<Rightarrow> proc \<Rightarrow> (string option \<times> int) list \<Rightarrow> nat" where
  "switches k s [] = 0"
| "switches k s ((dev, flags) # cs) =
     (let s' = snd (tun_alloc k s dev flags)
      in (if tun_dev s' \<noteq> tun_dev s then 1 else 0) + switches k s' cs)"

text \<open>The two statics move together: the legacy node is remembered exactly when
  the fallback has been taken.\<close>

definition path_inv :: "proc \<Rightarrow> bool" where
  "path_inv s = (tun_dev s = (if retried s then ''/dev/tun'' else ''/dev/net/tun''))"

subsection \<open>Kernels to run the allocator on\<close>

text \<open>
  A kernel on which everything succeeds, one that refuses the bind, one without the
  primary node, and one that denies access to every node (\<open>EACCES\<close> is 13).
\<close>

definition kernel_ok :: kernel where
  "kernel_ok = \<lparr>k_open = (\<lambda>log path. (3, 0)), k_ioctl = (\<lambda>log fd ifr. 0)\<rparr>"

definition kernel_bind_fails :: kernel where
  "kernel_bind_fails = \<lparr>k_open = (\<lambda>log path. (3, 0)), k_ioctl = (\<lambda>log fd ifr. - 1)\<rparr>"

definition kernel_legacy :: kernel where
  "kernel_legacy =
     \<lparr>k_open = (\<lambda>log path. if path = ''/dev/net/tun'' then (- 1, ENOENT) else (3, 0)),
      k_ioctl = (\<lambda>log fd ifr. 0)\<rparr>"

definition kernel_denied :: kernel where
  "kernel_denied = \<lparr>k_open = (\<lambda>log path. (- 1, 13)), k_ioctl = (\<lambda>log fd ifr. 0)\<rparr>"

text \<open>The state of a process after its first call fell back to the legacy node.\<close>

definition proc_legacy :: proc where
  "proc_legacy =
     \<lparr>retried = True, tun_dev = ''/dev/tun'',
      events = [EvOpen ''/dev/net/tun'' (- 1) 2, EvOpen ''/dev/tun'' 3 0,
                EvIoctl 3 \<lparr>ifr_name = ''tun0'', ifr_flags = 1\<rparr> 0]\<rparr>"

section \<open>The interface configurator: \<open>raise_up_iface\<close>\<close>

subsection \<open>C library functions the configurator calls\<close>

text \<open>
  \<open>printf\<close>'s \<open>%d\<close> and \<open>%u\<close> of a value that is not negative: its decimal digits.
\<close>

definition is_digit :: "char \<Rightarrow> bool" where
  "is_digit ch = (48 \<le> (of_char ch :: nat) \<and> (of_char ch :: nat) \<le> 57)"

definition digit_val :: "char \<Rightarrow> nat" where
  "digit_val ch = of_char ch - 48"

definition digit_char :: "nat \<Rightarrow> char" where
  "digit_char n = char_of (48 + n)"

fun dec :: "nat \<Rightarrow> string" where
  "dec n = (if n < 10 then [digit_char n] else dec (n div 10) @ [digit_char (n mod 10)])"

declare dec.simps [simp del]

text \<open>
  Modelled from the spec: \<open>inet_pton\<close> and \<open>inet_ntop\<close> belong to the C library and
  are not among the sources; \<open>inet_pton4_loop\<close>, \<open>inet_pton4\<close> and \<open>inet_ntop4\<close>
  below stand for them. The spec's dotted-quad is "four decimal octets separated by
  periods", parsed into and rendered from a 32-bit integer in network order, and parsing
  then rendering gives the text back. The parser scans the text once, as the Linux C
  library does for \<open>AF_INET\<close>: an octet is one to three decimal digits, at most 255,
  with no leading zero; exactly four octets, separated by single periods, and nothing
  else. \<open>saw_digit\<close> tells whether the current octet has a digit yet, \<open>octets\<close>
  counts the octets begun, \<open>done\<close> holds the finished octets and \<open>cur\<close> the one
  being read. The renderer prints the four bytes with \<open>%u.%u.%u.%u\<close>.
\<close>

fun inet_pton4_loop :: "string \<Rightarrow> bool \<Rightarrow> nat \<Rightarrow> nat list \<Rightarrow> nat \<Rightarrow> nat list option" where
  "inet_pton4_loop [] saw_digit octets done cur =
     (if octets < 4 then None else Some (done @ [cur]))"
| "inet_pton4_loop (ch # src) saw_digit octets done cur =
     (if is_digit ch then
        (let new = cur * 10 + digit_val ch in
         if saw_digit \<and> cur = 0 then None
         else if 255 < new then None
         else if \<not> saw_digit then
           (if 4 < octets + 1 then None else inet_pton4_loop src True (octets + 1) done new)
         else inet_pton4_loop src saw_digit octets done new)
      else if ch = CHR ''.'' \<and> saw_digit then
        (if octets = 4 then None else inet_pton4_loop src False octets (done @ [cur]) 0)
      else None)"

text \<open>
  The four bytes of a \<open>struct in_addr\<close>, in memory order (network order: the first
  octet of the text first).
\<close>

type_synonym in_addr = "8 word \<times> 8 word \<times> 8 word \<times> 8 word"

definition inet_pton4 :: "string \<Rightarrow> in_addr option" where
  "inet_pton4 src =
     (case inet_pton4_loop src False 0 [] 0 of
        Some [a, b, c, d] \<Rightarrow> Some (of_nat a, of_nat b, of_nat c, of_nat d)
      | _ \<Rightarrow> None)"

fun inet_ntop4 :: "in_addr \<Rightarrow> string" where
  "inet_ntop4 (a, b, c, d) =
     dec (unat a) @ ''.'' @ dec (unat b) @ ''.'' @ dec (unat c) @ ''.'' @ dec (unat d)"

text \<open>
  \<open>raise_up_iface\<close> keeps addresses in \<open>__be32\<close> variables and computes on them with
  the machine's integer operations. What integer the four bytes in memory are depends on
  the byte order of the machine, which is a parameter of the model.
\<close>

datatype byte_order = LittleEndian | BigEndian

fun host_of_bytes :: "byte_order \<Rightarrow> in_addr \<Rightarrow> 32 word" where
  "host_of_bytes LittleEndian (b0, b1, b2, b3) =
     ucast b0 OR push_bit 8 (ucast b1) OR push_bit 16 (ucast b2) OR push_bit 24 (ucast b3)"
| "host_of_bytes BigEndian (b0, b1, b2, b3) =
     ucast b3 OR push_bit 8 (ucast b2) OR push_bit 16 (ucast b1) OR push_bit 24 (ucast b0)"

fun bytes_of_host :: "byte_order \<Rightarrow> 32 word \<Rightarrow> in_addr" where
  "bytes_of_host LittleEndian w =
     (ucast w, ucast (drop_bit 8 w), ucast (drop_bit 16 w), ucast (drop_bit 24 w))"
| "bytes_of_host BigEndian w =
     (ucast (drop_bit 24 w), ucast (drop_bit 16 w), ucast (drop_bit 8 w), ucast w)"

text \<open>
  \<open>inet_pton(AF_INET, src, &x)\<close> is \<open>None\<close> when it returns 0 and leaves \<open>x\<close> alone.
  \<open>inet_ntop(AF_INET, &x, dst, sz)\<close> is \<open>None\<close> when the text and its terminator do
  not fit \<open>sz\<close> bytes, where the library returns a null pointer.
\<close>

definition inet_pton :: "byte_order \<Rightarrow> string \<Rightarrow> 32 word option" where
  "inet_pton e src = map_option (host_of_bytes e) (inet_pton4 src)"

definition inet_ntop :: "byte_order \<Rightarrow> 32 word \<Rightarrow> nat \<Rightarrow> string option" where
  "inet_ntop e w sz =
     (let tmp = inet_ntop4 (bytes_of_host e w)
      in if sz \<le> length tmp then None else Some tmp)"

definition strnlen :: "string \<Rightarrow> nat \<Rightarrow> nat" where
  "strnlen s maxlen = min (length s) maxlen"

text \<open>
  \<open>snprintf(dst + off, sz, ...)\<close> on a buffer \<open>dst\<close> of \<open>cap\<close> bytes, where \<open>text\<close> is
  the formatted output: at most \<open>sz - 1\<close> characters and a terminator are written at
  offset \<open>off\<close>. The source passes the size of the whole buffer for \<open>sz\<close> although it
  writes at an offset, so the write can pass the end of the buffer: that is \<open>None\<close>.
\<close>

definition snprintf_at :: "nat \<Rightarrow> string \<Rightarrow> nat \<Rightarrow> nat \<Rightarrow> string \<Rightarrow> string option" where
  "snprintf_at cap dst off sz text =
     (let out = take (sz - 1) text
      in if cap < off + length out + 1 then None else Some (take off dst @ out))"

subsection \<open>Helpers of the repository\<close>

text \<open>
  \<open>escapeshellarg\<close> (declared in \<open>teavpn2/global/helpers/shell.h\<close>) is not among the
  sources, so the text it produces is a parameter of the model. \<open>simple_esc_arg\<close>
  hands it the destination buffer without its size: when the escaped text and its
  terminator need more than the \<open>cap\<close> bytes of the buffer, the write passes its end,
  which is \<open>None\<close>.
\<close>

definition simple_esc_arg :: "(string \<Rightarrow> string) \<Rightarrow> nat \<Rightarrow> string \<Rightarrow> string option" where
  "simple_esc_arg escapeshellarg cap str =
     (let out = escapeshellarg str
      in if cap < length out + 1 then None else Some out)"

text \<open>
  The macro \<open>IPV4LEN\<close> comes from a header that is not among the sources; its value
  is the parameter \<open>ipv4len\<close> of every function that depends on it.
\<close>

definition IPV4SAFE :: "nat \<Rightarrow> nat" where
  "IPV4SAFE ipv4len = ipv4len + 16"

subsection \<open>State\<close>

text \<open>
  The fields of \<open>struct srv_iface_cfg\<close> that \<open>raise_up_iface\<close> reads. The function
  gets a pointer to the struct, so the struct is part of the state it could change,
  together with the list of the command lines handed to \<open>system\<close>.
\<close>

record srv_iface_cfg =
  dev :: string
  ipv4 :: string
  ipv4_netmask :: string
  mtu :: "16 word"

record world =
  iface :: srv_iface_cfg
  executed :: "string list"

text \<open>
  The function returns \<open>true\<close> or \<open>false\<close>, unless a write passes the end of one of
  its buffers, after which C defines nothing: \<open>Overrun\<close>.
\<close>

datatype status = Returned bool | Overrun

text \<open>The local variables, all zeroed at their declaration.\<close>

record locals =
  u_ipv4 :: string
  u_ipv4_netmask :: string
  u_ipv4_network :: string
  u_ipv4_broadcast :: string
  e_dev :: string
  e_ipv4 :: string
  e_ipv4_network :: string
  e_ipv4_broadcast :: string
  b_ipv4 :: "32 word"
  b_ipv4_network :: "32 word"
  b_ipv4_netmask :: "32 word"
  b_ipv4_broadcast :: "32 word"
  cidr :: "8 word"
  l_mtu :: "16 word"

definition locals_init :: locals where
  "locals_init =
     \<lparr>u_ipv4 = [], u_ipv4_netmask = [], u_ipv4_network = [], u_ipv4_broadcast = [],
      e_dev = [], e_ipv4 = [], e_ipv4_network = [], e_ipv4_broadcast = [],
      b_ipv4 = 0, b_ipv4_network = 0, b_ipv4_netmask = 0, b_ipv4_broadcast = 0,
      cidr = 0, l_mtu = 0\<rparr>"

subsection \<open>The function\<close>

text \<open>The loop of lines 144 to 147: count the right shifts that empty \<open>tmp\<close>.\<close>

function cidr_loop :: "8 word \<Rightarrow> 32 word \<Rightarrow> 8 word" where
  "cidr_loop c tmp = (if tmp \<noteq> 0 then cidr_loop (c + 1) (drop_bit 1 tmp) else c)"
  by pat_completeness auto
termination
proof (relation "measure (\<lambda>(c, tmp). unat tmp)")
  show "wf (measure (\<lambda>(c :: 8 word, tmp :: 32 word). unat tmp))" by simp
next
  fix c :: "8 word" and tmp :: "32 word"
  assume "tmp \<noteq> 0"
  then have "0 < unat tmp" by (simp add: unat_gt_0)
  then have "unat tmp div 2 < unat tmp" by simp
  then show "((c + 1, drop_bit 1 tmp), (c, tmp)) \<in> measure (\<lambda>(c, tmp). unat tmp)"
    by (simp add: drop_bit_eq_div unat_div)
qed

declare cidr_loop.simps [simp del]

text \<open>
  Lines 129 to 192: copy the two texts, parse them, derive the prefix length, the
  network and the broadcast address, and render them. \<open>Inl\<close> is an early return.
\<close>

definition derive_addresses :: "byte_order \<Rightarrow> nat \<Rightarrow> srv_iface_cfg \<Rightarrow> status + locals" where
  "derive_addresses e ipv4len cfg =
     (let l = locals_init\<lparr>l_mtu := mtu cfg\<rparr>;
          l = l\<lparr>u_ipv4 := strncpy (ipv4 cfg) (IPV4SAFE ipv4len - 1)\<rparr>;
          l = l\<lparr>u_ipv4_netmask := strncpy (ipv4_netmask cfg) (IPV4SAFE ipv4len - 1)\<rparr>
      in
        case inet_pton e (u_ipv4_netmask l) of
          None \<Rightarrow> Inl (Returned False)
        | Some m \<Rightarrow>
            let l = l\<lparr>b_ipv4_netmask := m\<rparr>;
                l = l\<lparr>cidr := cidr_loop 0 (b_ipv4_netmask l)\<rparr>
            in
              if 32 < cidr l then Inl (Returned False)
              else
                case inet_pton e (u_ipv4 l) of
                  None \<Rightarrow> Inl (Returned False)
                | Some a \<Rightarrow>
                    let l = l\<lparr>b_ipv4 := a\<rparr> in
                    case snprintf_at (IPV4SAFE ipv4len) (u_ipv4 l)
                           (strnlen (u_ipv4 l) (IPV4SAFE ipv4len)) (IPV4SAFE ipv4len)
                           (''/'' @ dec (unat (cidr l))) of
                      None \<Rightarrow> Inl Overrun
                    | Some s \<Rightarrow>
                        let l = l\<lparr>u_ipv4 := s\<rparr>;
                            l = l\<lparr>b_ipv4_network := b_ipv4 l AND b_ipv4_netmask l\<rparr>;
                            l = l\<lparr>b_ipv4_broadcast :=
                                    b_ipv4_network l OR NOT (b_ipv4_netmask l)\<rparr>
                        in
                          case inet_ntop e (b_ipv4_network l) (IPV4SAFE ipv4len) of
                            None \<Rightarrow> Inl (Returned False)
                          | Some s \<Rightarrow>
                              let l = l\<lparr>u_ipv4_network := s\<rparr> in
                              case snprintf_at (IPV4SAFE ipv4len) (u_ipv4_network l)
                                     (strnlen (u_ipv4_network l) (IPV4SAFE ipv4len))
                                     (IPV4SAFE ipv4len) (''/'' @ dec (unat (cidr l))) of
                                None \<Rightarrow> Inl Overrun
                              | Some s \<Rightarrow>
                                  let l = l\<lparr>u_ipv4_network := s\<rparr> in
                                  case inet_ntop e (b_ipv4_broadcast l) (IPV4SAFE ipv4len) of
                                    None \<Rightarrow> Inl (Returned False)
                                  | Some s \<Rightarrow> Inr (l\<lparr>u_ipv4_broadcast := s\<rparr>))"

text \<open>Lines 194 to 197: the four escaped copies, in the order of the source.\<close>

definition escape_args ::
  "(string \<Rightarrow> string) \<Rightarrow> nat \<Rightarrow> srv_iface_cfg \<Rightarrow> locals \<Rightarrow> status + locals" where
  "escape_args escapeshellarg ipv4len cfg l =
     (case simple_esc_arg escapeshellarg (IPV4SAFE ipv4len) (u_ipv4_network l) of
        None \<Rightarrow> Inl Overrun
      | Some s \<Rightarrow>
          let l = l\<lparr>e_ipv4_network := s\<rparr> in
          case simple_esc_arg escapeshellarg (IPV4SAFE ipv4len) (u_ipv4_broadcast l) of
            None \<Rightarrow> Inl Overrun
          | Some s \<Rightarrow>
              let l = l\<lparr>e_ipv4_broadcast := s\<rparr> in
              case simple_esc_arg escapeshellarg 32 (dev cfg) of
                None \<Rightarrow> Inl Overrun
              | Some s \<Rightarrow>
                  let l = l\<lparr>e_dev := s\<rparr> in
                  case simple_esc_arg escapeshellarg (IPV4SAFE ipv4len) (u_ipv4 l) of
                    None \<Rightarrow> Inl Overrun
                  | Some s \<Rightarrow> Inr (l\<lparr>e_ipv4 := s\<rparr>))"

text \<open>
  The macro \<open>EXEC_CMD\<close>: format into \<open>buf[1024]\<close>, which cuts the text after 1023
  characters, and hand the buffer to \<open>system\<close>. The answer of \<open>system\<close> may depend on
  the commands run before.
\<close>

definition EXEC_CMD :: "(string list \<Rightarrow> string \<Rightarrow> int) \<Rightarrow> world \<Rightarrow> string \<Rightarrow> int \<times> world" where
  "EXEC_CMD system w text =
     (let buf = take (1024 - 1) text
      in (system (executed w) buf, w\<lparr>executed := executed w @ [buf]\<rparr>))"

text \<open>Lines 199 to 208.\<close>

definition exec_cmds :: "(string list \<Rightarrow> string \<Rightarrow> int) \<Rightarrow> locals \<Rightarrow> world \<Rightarrow> status \<times> world" where
  "exec_cmds system l w =
     (let (ret, w) = EXEC_CMD system w
            (''/sbin/ip link set dev '' @ e_dev l @ '' up mtu '' @ dec (unat (l_mtu l)))
      in if ret < 0 then (Returned False, w)
         else
           let (ret, w) = EXEC_CMD system w
                 (''/sbin/ip addr add dev '' @ e_dev l @ '' '' @ e_ipv4 l @ '' broadcast '' @
                  e_ipv4_broadcast l)
           in if ret < 0 then (Returned False, w) else (Returned True, w))"

definition raise_up_iface ::
  "byte_order \<Rightarrow> nat \<Rightarrow> (string \<Rightarrow> string) \<Rightarrow> (string list \<Rightarrow> string \<Rightarrow> int) \<Rightarrow> world
     \<Rightarrow> status \<times> world" where
  "raise_up_iface e ipv4len escapeshellarg system w =
     (case derive_addresses e ipv4len (iface w) of
        Inl st \<Rightarrow> (st, w)
      | Inr l \<Rightarrow>
          case escape_args escapeshellarg ipv4len (iface w) l of
            Inl st \<Rightarrow> (st, w)
          | Inr l \<Rightarrow> exec_cmds system l w)"

subsection \<open>Inputs to run the configurator on\<close>

text \<open>
  Modelled from the spec: \<open>escapeshellarg\<close> is not among the sources. The spec asks
  for "shell-argument-safe quoting"; \<open>quote_arg\<close> wraps the text in single quotes
  and writes each single quote inside it as \<open>'\''\<close>. It stands for \<open>escapeshellarg\<close>
  only where the model is run on a concrete input.
\<close>

definition quote_arg :: "string \<Rightarrow> string" where
  "quote_arg s =
     [CHR 0x27] @
     concat (map (\<lambda>c. if c = CHR 0x27 then [CHR 0x27, CHR 0x5C, CHR 0x27, CHR 0x27] else [c]) s) @
     [CHR 0x27]"

definition system_ok :: "string list \<Rightarrow> string \<Rightarrow> int" where
  "system_ok history cmd = 0"

definition system_fails :: "string list \<Rightarrow> string \<Rightarrow> int" where
  "system_fails history cmd = - 1"

definition cfg_class_a :: srv_iface_cfg where
  "cfg_class_a =
     \<lparr>dev = ''tun0'', ipv4 = ''10.0.0.1'', ipv4_netmask = ''255.0.0.0'', mtu = 1500\<rparr>"

text \<open>
  A configuration whose interface name is eight single quotes: eight characters, within
  the 15 of an interface name.
\<close>

definition cfg_quotes :: srv_iface_cfg where
  "cfg_quotes =
     \<lparr>dev = [CHR 0x27, CHR 0x27, CHR 0x27, CHR 0x27, CHR 0x27, CHR 0x27, CHR 0x27, CHR 0x27],
      ipv4 = ''10.0.0.1'', ipv4_netmask = ''255.0.0.0'', mtu = 1500\<rparr>"

definition cfg_slash30 :: srv_iface_cfg where
  "cfg_slash30 =
     \<lparr>dev = ''tun0'', ipv4 = ''10.0.0.1'', ipv4_netmask = ''255.255.255.252'', mtu = 1500\<rparr>"

text \<open>
  The local variables of a run on \<open>cfg_class_a\<close> (little-endian machine) after line
  192 and after line 197, and the two command lines of that run.
\<close>

definition locals_class_a :: locals where
  "locals_class_a =
     \<lparr>u_ipv4 = ''10.0.0.1/8'', u_ipv4_netmask = ''255.0.0.0'',
      u_ipv4_network = ''10.0.0.0/8'', u_ipv4_broadcast = ''10.255.255.255'',
      e_dev = [], e_ipv4 = [], e_ipv4_network = [], e_ipv4_broadcast = [],
      b_ipv4 = 0x0100000A, b_ipv4_network = 0x0000000A, b_ipv4_netmask = 0x000000FF,
      b_ipv4_broadcast = 0xFFFFFF0A, cidr = 8, l_mtu = 1500\<rparr>"

definition locals_escaped_class_a :: locals where
  "locals_escaped_class_a =
     locals_class_a\<lparr>e_ipv4_network := quote_arg ''10.0.0.0/8'',
            e_ipv4_broadcast := quote_arg ''10.255.255.255'',
            e_dev := quote_arg ''tun0'', e_ipv4 := quote_arg ''10.0.0.1/8''\<rparr>"

definition link_cmd_class_a :: string where
  "link_cmd_class_a = ''/sbin/ip link set dev '' @ quote_arg ''tun0'' @ '' up mtu 1500''"

definition addr_cmd_class_a :: string where
  "addr_cmd_class_a = ''/sbin/ip addr add dev '' @ quote_arg ''tun0'' @ '' '' @
     quote_arg ''10.0.0.1/8'' @ '' broadcast '' @ quote_arg ''10.255.255.255''"

text \<open>
  The number of set bits of a 32-bit integer, which is what the spec takes the prefix
  length of a netmask to be. It does not depend on the byte order. It is not part of the
  source: the prefix loop is compared with it.
\<close>

fun ones :: "nat \<Rightarrow> nat" where
  "ones n = (if n = 0 then 0 else n mod 2 + ones (n div 2))"

declare ones.simps [simp del]

definition set_bits :: "32 word \<Rightarrow> nat" where
  "set_bits w = ones (unat w)"

text \<open>The text of a list of octets, each followed by a period.\<close>

definition dotted :: "nat list \<Rightarrow> string" where
  "dotted xs = concat (map (\<lambda>n. dec n @ ''.'') xs)"

section \<open>Properties of \<open>tun_alloc\<close>\<close>

declare tun_alloc.simps [simp del]

lemmas tun_eval = tun_alloc.simps proc_init_def strncpy_def IFNAMSIZ_def ENOENT_def EINVAL_def
  Let_def call_log_def

lemma tun_alloc_null: "tun_alloc k s None flags = (- EINVAL, s)"
  by (simp add: tun_alloc.simps)

lemma tun_alloc_empty: "tun_alloc k s (Some []) flags = (- EINVAL, s)"
  by (simp add: tun_alloc.simps)

text \<open>A call that does not take the fallback runs the body once.\<close>

lemma tun_alloc_no_fallback:
  assumes "d \<noteq> []" and "k_open k (events s) (tun_dev s) = (fd, err)"
    and "\<not> (fd < 0 \<and> \<not> retried s \<and> err = ENOENT)"
  shows "tun_alloc k s (Some d) flags =
     (let ifr = \<lparr>ifr_name = strncpy d (IFNAMSIZ - 1), ifr_flags = word_of_int flags\<rparr>;
          s1 = s\<lparr>events := events s @ [EvOpen (tun_dev s) fd err]\<rparr>
      in if fd < 0 then (fd, s1)
         else let retval = k_ioctl k (events s1) fd ifr;
                  s2 = s1\<lparr>events := events s1 @ [EvIoctl fd ifr retval]\<rparr>
              in if retval < 0 then (retval, s2\<lparr>events := events s2 @ [EvClose fd]\<rparr>)
                 else (fd, s2))"
  using assms by (subst tun_alloc.simps) (auto simp add: Let_def split: prod.splits)

lemma tun_alloc_fallback:
  assumes "\<not> retried s" and "d \<noteq> []"
    and "k_open k (events s) (tun_dev s) = (fd, ENOENT)" and "fd < 0"
  shows "tun_alloc k s (Some d) flags =
     tun_alloc k (s\<lparr>events := events s @ [EvOpen (tun_dev s) fd ENOENT],
                     retried := True, tun_dev := ''/dev/tun''\<rparr>) (Some d) flags"
  using assms by (subst tun_alloc.simps) (simp add: Let_def)

lemma no_fallback_shape:
  assumes "d \<noteq> []" and "k_open k (events s) (tun_dev s) = (fd, err)"
    and "\<not> (fd < 0 \<and> \<not> retried s \<and> err = ENOENT)"
    and "tun_alloc k s (Some d) flags = (r, s')"
    and "ifr = \<lparr>ifr_name = take 15 d, ifr_flags = word_of_int flags\<rparr>"
    and "rv = k_ioctl k (events s @ [EvOpen (tun_dev s) fd err]) fd ifr"
  shows "retried s' = retried s \<and> tun_dev s' = tun_dev s \<and>
        (   (fd < 0 \<and> r = fd \<and> events s' = events s @ [EvOpen (tun_dev s) fd err])
          \<or> (0 \<le> fd \<and> rv < 0 \<and> r = rv \<and>
               events s' = events s @ [EvOpen (tun_dev s) fd err, EvIoctl fd ifr rv, EvClose fd])
          \<or> (0 \<le> fd \<and> 0 \<le> rv \<and> r = fd \<and>
               events s' = events s @ [EvOpen (tun_dev s) fd err, EvIoctl fd ifr rv]))"
  using assms(4-6) unfolding tun_alloc_no_fallback[OF assms(1-3)]
  by (auto simp: Let_def strncpy_def IFNAMSIZ_def split: if_splits)

lemma tun_alloc_cases:
  assumes d: "d \<noteq> []" and run: "tun_alloc k s (Some d) flags = (r, s')"
    and o: "k_open k (events s) (tun_dev s) = (fd, err)"
  obtains
    (direct) "\<not> (fd < 0 \<and> \<not> retried s \<and> err = ENOENT)"
  | (fallback) "fd < 0" "\<not> retried s" "err = ENOENT"
      "tun_alloc k (s\<lparr>events := events s @ [EvOpen (tun_dev s) fd ENOENT],
                       retried := True, tun_dev := ''/dev/tun''\<rparr>) (Some d) flags = (r, s')"
  using tun_alloc_fallback[of s d k fd flags] d run o
  by (cases "fd < 0 \<and> \<not> retried s \<and> err = ENOENT") auto

lemma call_log_append [simp]: "events s' = events s @ xs \<Longrightarrow> call_log s s' = xs"
  by (simp add: call_log_def)

text \<open>
  What one call with a name appends to the log: possibly the failed open of the primary
  node, then one of the three ways through the body.
\<close>

lemma tun_alloc_log_shape:
  assumes d: "d \<noteq> []" and run: "tun_alloc k s (Some d) flags = (r, s')"
    and ifr: "ifr = \<lparr>ifr_name = take 15 d, ifr_flags = word_of_int flags\<rparr>"
  shows "\<exists>pre p fd err rv.
      (pre = [] \<or> (\<exists>f. pre = [EvOpen (tun_dev s) f ENOENT] \<and> f < 0 \<and> \<not> retried s)) \<and>
      (   (fd < 0 \<and> r = fd \<and> call_log s s' = pre @ [EvOpen p fd err])
        \<or> (0 \<le> fd \<and> rv < 0 \<and> r = rv \<and>
             call_log s s' = pre @ [EvOpen p fd err, EvIoctl fd ifr rv, EvClose fd])
        \<or> (0 \<le> fd \<and> 0 \<le> rv \<and> r = fd \<and>
             call_log s s' = pre @ [EvOpen p fd err, EvIoctl fd ifr rv]))"
proof -
  obtain fd err where o: "k_open k (events s) (tun_dev s) = (fd, err)" by force
  from d run o show ?thesis
  proof (cases rule: tun_alloc_cases)
    case direct
    define rv where "rv = k_ioctl k (events s @ [EvOpen (tun_dev s) fd err]) fd ifr"
    have "(fd < 0 \<and> r = fd \<and> call_log s s' = [] @ [EvOpen (tun_dev s) fd err])
        \<or> (0 \<le> fd \<and> rv < 0 \<and> r = rv \<and>
             call_log s s' = [] @ [EvOpen (tun_dev s) fd err, EvIoctl fd ifr rv, EvClose fd])
        \<or> (0 \<le> fd \<and> 0 \<le> rv \<and> r = fd \<and>
             call_log s s' = [] @ [EvOpen (tun_dev s) fd err, EvIoctl fd ifr rv])"
      using no_fallback_shape[OF d o direct run ifr rv_def] by auto
    then show ?thesis by blast
  next
    case fallback
    let ?t = "s\<lparr>events := events s @ [EvOpen (tun_dev s) fd ENOENT],
                 retried := True, tun_dev := ''/dev/tun''\<rparr>"
    obtain fd' err' where o': "k_open k (events ?t) (tun_dev ?t) = (fd', err')" by force
    define rv where "rv = k_ioctl k (events ?t @ [EvOpen (tun_dev ?t) fd' err']) fd' ifr"
    let ?pre = "[EvOpen (tun_dev s) fd ENOENT]"
    have "(fd' < 0 \<and> r = fd' \<and> call_log s s' = ?pre @ [EvOpen ''/dev/tun'' fd' err'])
        \<or> (0 \<le> fd' \<and> rv < 0 \<and> r = rv \<and>
             call_log s s' = ?pre @ [EvOpen ''/dev/tun'' fd' err', EvIoctl fd' ifr rv, EvClose fd'])
        \<or> (0 \<le> fd' \<and> 0 \<le> rv \<and> r = fd' \<and>
             call_log s s' = ?pre @ [EvOpen ''/dev/tun'' fd' err', EvIoctl fd' ifr rv])"
      using no_fallback_shape[OF d o' _ fallback(4) ifr rv_def] by auto
    moreover have "\<exists>f. ?pre = [EvOpen (tun_dev s) f ENOENT] \<and> f < 0 \<and> \<not> retried s"
      using fallback by simp
    ultimately show ?thesis by blast
  qed
qed

lemma path_inv_init: "path_inv proc_init"
  by (simp add: path_inv_def proc_init_def)

lemma path_inv_step:
  assumes "path_inv s" and "tun_alloc k s name flags = (r, s')"
  shows "path_inv s' \<and> (retried s \<longrightarrow> retried s')"
proof (cases "name = None \<or> name = Some []")
  case True
  with assms show ?thesis by (auto simp: tun_alloc_null tun_alloc_empty)
next
  case False
  then obtain d where d: "name = Some d" "d \<noteq> []" by auto
  obtain fd err where o: "k_open k (events s) (tun_dev s) = (fd, err)" by force
  show ?thesis
  proof (cases "fd < 0 \<and> \<not> retried s \<and> err = ENOENT")
    case nf: False
    from no_fallback_shape[OF d(2) o nf assms(2)[unfolded d(1)] refl refl] assms(1)
    show ?thesis by (simp add: path_inv_def)
  next
    case fb: True
    let ?t = "s\<lparr>events := events s @ [EvOpen (tun_dev s) fd ENOENT],
                 retried := True, tun_dev := ''/dev/tun''\<rparr>"
    obtain fd' err' where o': "k_open k (events ?t) (tun_dev ?t) = (fd', err')" by force
    have "tun_alloc k ?t (Some d) flags = (r, s')"
      using tun_alloc_fallback[of s d k fd flags] fb o d assms(2) by simp
    from no_fallback_shape[OF d(2) o' _ this refl refl]
    show ?thesis by (simp add: path_inv_def)
  qed
qed

lemma path_inv_calls: "path_inv s \<Longrightarrow> path_inv (tun_alloc_calls k s cs)"
proof (induction cs arbitrary: s)
  case Nil
  then show ?case by simp
next
  case (Cons c cs)
  obtain name flags where c: "c = (name, flags)" by force
  obtain r s' where run: "tun_alloc k s name flags = (r, s')" by force
  from path_inv_step[OF Cons.prems run] have "path_inv s'" by simp
  from Cons.IH[OF this] show ?case by (simp add: c run)
qed

lemma switches_bound: "path_inv s \<Longrightarrow> switches k s cs \<le> (if retried s then 0 else 1)"
proof (induction cs arbitrary: s)
  case Nil
  then show ?case by simp
next
  case (Cons c cs)
  obtain name flags where c: "c = (name, flags)" by force
  obtain r s' where run: "tun_alloc k s name flags = (r, s')" by force
  from path_inv_step[OF Cons.prems run]
  have inv': "path_inv s'" and mono: "retried s \<longrightarrow> retried s'"
    by simp_all
  have changed: "tun_dev s' \<noteq> tun_dev s \<Longrightarrow> \<not> retried s \<and> retried s'"
    using Cons.prems inv' mono by (auto simp: path_inv_def split: if_splits)
  have same: "tun_dev s' = tun_dev s \<Longrightarrow> retried s' = retried s"
    using Cons.prems inv' by (auto simp: path_inv_def split: if_splits)
  from Cons.IH[OF inv'] have "switches k s' cs \<le> (if retried s' then 0 else 1)" .
  with changed same show ?case by (auto simp: c run Let_def)
qed

text \<open>
  C6. Called with an empty interface name, \<open>tun_alloc\<close> returns \<open>-EINVAL\<close> (which
  is \<open>-22\<close>) whatever the flags are, and leaves the process state as it was: nothing is
  added to the log, so no device node is opened.
\<close>

theorem tun_alloc_empty_name_EINVAL:
  "tun_alloc k s (Some []) flags = (- EINVAL, s) \<and> - EINVAL = - 22 \<and>
   opened_paths (call_log s (snd (tun_alloc k s (Some []) flags))) = []"
  by (simp add: tun_alloc.simps EINVAL_def call_log_def)

theorem tun_alloc_empty_name_EINVAL_witness:
  "tun_alloc kernel_ok proc_init (Some []) 1 = (- 22, proc_init)"
  using tun_alloc_empty_name_EINVAL[of kernel_ok proc_init 1] by (simp add: EINVAL_def)

text \<open>
  C7. Whenever a call of \<open>tun_alloc\<close> issued the bind \<open>ioctl(fd, TUNSETIFF, &ifr)\<close>
  and the kernel answered it with a negative value, the call returns that value, and the
  last three things it did are: open a node and get \<open>fd\<close>, the failed bind on \<open>fd\<close>,
  \<open>close(fd)\<close>. Nothing the call opened before that gave a descriptor, so no descriptor
  is left open.
\<close>

theorem tun_alloc_closes_fd_on_bind_failure:
  assumes "tun_alloc k s name flags = (r, s')"
    and "EvIoctl fd ifr rv \<in> set (call_log s s')" and "rv < 0"
  shows "r = rv \<and>
    (\<exists>pre p e. call_log s s' = pre @ [EvOpen p fd e, EvIoctl fd ifr rv, EvClose fd] \<and>
        (\<forall>p' f e'. EvOpen p' f e' \<in> set pre \<longrightarrow> f < 0))"
proof (cases "name = None \<or> name = Some []")
  case True
  with assms(1,2) show ?thesis by (auto simp: tun_alloc_null tun_alloc_empty call_log_def)
next
  case False
  then obtain d where d: "name = Some d" "d \<noteq> []" by auto
  from tun_alloc_log_shape[OF d(2) assms(1)[unfolded d(1)] refl]
  obtain pre p fd' err rv' where
    pre: "pre = [] \<or> (\<exists>f. pre = [EvOpen (tun_dev s) f ENOENT] \<and> f < 0 \<and> \<not> retried s)"
    and sh: "(fd' < 0 \<and> r = fd' \<and> call_log s s' = pre @ [EvOpen p fd' err])
        \<or> (0 \<le> fd' \<and> rv' < 0 \<and> r = rv' \<and>
             call_log s s' = pre @ [EvOpen p fd' err,
               EvIoctl fd' \<lparr>ifr_name = take 15 d, ifr_flags = word_of_int flags\<rparr> rv', EvClose fd'])
        \<or> (0 \<le> fd' \<and> 0 \<le> rv' \<and> r = fd' \<and>
             call_log s s' = pre @ [EvOpen p fd' err,
               EvIoctl fd' \<lparr>ifr_name = take 15 d, ifr_flags = word_of_int flags\<rparr> rv'])"
    by blast
  from sh assms(2,3) pre
  have "r = rv \<and> call_log s s' = pre @ [EvOpen p fd err, EvIoctl fd ifr rv, EvClose fd]"
    by auto
  moreover from pre have "\<forall>p' f e'. EvOpen p' f e' \<in> set pre \<longrightarrow> f < 0" by auto
  ultimately show ?thesis by blast
qed

theorem tun_alloc_closes_fd_on_bind_failure_witness:
  "tun_alloc kernel_bind_fails proc_init (Some ''tun0'') 1 =
     (- 1, proc_init\<lparr>events := [EvOpen ''/dev/net/tun'' 3 0,
         EvIoctl 3 \<lparr>ifr_name = ''tun0'', ifr_flags = 1\<rparr> (- 1), EvClose 3]\<rparr>)
   \<and> (\<exists>pre p e. [EvOpen ''/dev/net/tun'' 3 0,
         EvIoctl 3 \<lparr>ifr_name = ''tun0'', ifr_flags = 1\<rparr> (- 1), EvClose 3]
        = pre @ [EvOpen p 3 e, EvIoctl 3 \<lparr>ifr_name = ''tun0'', ifr_flags = 1\<rparr> (- 1), EvClose 3]
            \<and> (\<forall>p' f e'. EvOpen p' f e' \<in> set pre \<longrightarrow> f < 0))"
  using tun_alloc_closes_fd_on_bind_failure[of kernel_bind_fails proc_init "Some ''tun0''" 1 "- 1"
      "proc_init\<lparr>events := [EvOpen ''/dev/net/tun'' 3 0,
         EvIoctl 3 \<lparr>ifr_name = ''tun0'', ifr_flags = 1\<rparr> (- 1), EvClose 3]\<rparr>"
      3 "\<lparr>ifr_name = ''tun0'', ifr_flags = 1\<rparr>" "- 1"]
  by (simp add: tun_eval kernel_bind_fails_def)

text \<open>
  C4. Take any state \<open>s\<close> that a process reaches by a sequence \<open>cs\<close> of calls of
  \<open>tun_alloc\<close>, and one more call, whose open of the remembered node is answered
  \<open>(fd, err)\<close>.
  \<^item> Over any sequence of calls the remembered node changes at most once.
  \<^item> This call changes it exactly when it has a name, no fallback happened before, and the
    open failed with \<open>ENOENT\<close>.
  \<^item> Then the node changes from \<open>/dev/net/tun\<close> to \<open>/dev/tun\<close>, the call is the whole
    of \<open>tun_alloc\<close> run again from the switched state, and it opens each node once.
  \<^item> After a fallback the legacy node stays remembered and is the only one opened.
  \<^item> Any other failed open is returned as it is, with nothing done after it.
\<close>

theorem tun_alloc_fallback_once:
  assumes s: "s = tun_alloc_calls k proc_init cs"
    and run: "tun_alloc k s name flags = (r, s')"
    and o: "k_open k (events s) (tun_dev s) = (fd, err)"
  shows "switches k proc_init cs' \<le> 1
    \<and> ((tun_dev s' \<noteq> tun_dev s) =
         (name \<noteq> None \<and> name \<noteq> Some [] \<and> \<not> retried s \<and> fd < 0 \<and> err = ENOENT))
    \<and> (tun_dev s' \<noteq> tun_dev s \<longrightarrow>
         tun_dev s = ''/dev/net/tun'' \<and> tun_dev s' = ''/dev/tun'' \<and> retried s' \<and>
         tun_alloc k (s\<lparr>events := events s @ [EvOpen ''/dev/net/tun'' fd ENOENT],
                         retried := True, tun_dev := ''/dev/tun''\<rparr>) name flags = (r, s') \<and>
         opened_paths (call_log s s') = [''/dev/net/tun'', ''/dev/tun''])
    \<and> (retried s \<longrightarrow>
         tun_dev s = ''/dev/tun'' \<and> retried s' \<and> tun_dev s' = ''/dev/tun'' \<and>
         set (opened_paths (call_log s s')) \<subseteq> {''/dev/tun''})
    \<and> (name \<noteq> None \<and> name \<noteq> Some [] \<and> fd < 0 \<and> \<not> (\<not> retried s \<and> err = ENOENT) \<longrightarrow>
         r = fd \<and> s' = s\<lparr>events := events s @ [EvOpen (tun_dev s) fd err]\<rparr>)"
proof -
  have inv: "path_inv s" unfolding s by (rule path_inv_calls[OF path_inv_init])
  have A: "switches k proc_init cs' \<le> 1"
    using switches_bound[OF path_inv_init, of k cs'] by (simp add: proc_init_def)
  show ?thesis
  proof (cases "name = None \<or> name = Some []")
    case True
    with run have "s' = s" by (auto simp: tun_alloc_null tun_alloc_empty)
    with True A inv show ?thesis by (auto simp: path_inv_def call_log_def)
  next
    case False
    then obtain d where d: "name = Some d" "d \<noteq> []" by auto
    note run' = run[unfolded d(1)]
    from d(2) run' o show ?thesis
    proof (cases rule: tun_alloc_cases)
      case direct
      from no_fallback_shape[OF d(2) o direct run' refl refl]
      have same: "retried s' = retried s" "tun_dev s' = tun_dev s"
        and sh: "(fd < 0 \<and> r = fd \<and> events s' = events s @ [EvOpen (tun_dev s) fd err]) \<or>
          (0 \<le> fd \<and> (\<exists>xs. events s' = events s @ EvOpen (tun_dev s) fd err # xs \<and>
             opened_paths xs = []))"
        by auto
      have ev: "fd < 0 \<Longrightarrow> s' = s\<lparr>events := events s @ [EvOpen (tun_dev s) fd err]\<rparr>"
        using sh same by (cases s, cases s') auto
      have op: "retried s \<Longrightarrow> set (opened_paths (call_log s s')) \<subseteq> {''/dev/tun''}"
        using sh inv by (auto simp: path_inv_def)
      have 5: "fd < 0 \<Longrightarrow> r = fd" using sh by auto
      from A same direct d inv ev op 5 show ?thesis
        by (simp add: path_inv_def)
    next
      case fallback
      let ?t = "s\<lparr>events := events s @ [EvOpen (tun_dev s) fd ENOENT],
                   retried := True, tun_dev := ''/dev/tun''\<rparr>"
      obtain fd' err' where o': "k_open k (events ?t) (tun_dev ?t) = (fd', err')" by force
      from inv fallback(2) have prim: "tun_dev s = ''/dev/net/tun''" by (simp add: path_inv_def)
      from no_fallback_shape[OF d(2) o' _ fallback(4) refl refl]
      have same: "retried s'" "tun_dev s' = ''/dev/tun''"
        and sh: "\<exists>xs. events s' =
                   events s @ EvOpen (tun_dev s) fd ENOENT # EvOpen ''/dev/tun'' fd' err' # xs
                  \<and> opened_paths xs = []"
        by auto
      from sh have op: "opened_paths (call_log s s') = [''/dev/net/tun'', ''/dev/tun'']"
        using prim by auto
      from A same fallback d prim op show ?thesis by simp
    qed
  qed
qed

text \<open>
  The theorem at work. On a kernel without the primary node the first call falls back and
  opens both nodes, and the second call opens the legacy node only. On a kernel that
  denies access the first call returns the failed open and stays on the primary node.
\<close>

theorem tun_alloc_fallback_once_witness:
  "tun_alloc kernel_legacy proc_init (Some ''tun0'') 1 = (3, proc_legacy)
   \<and> switches kernel_legacy proc_init [(Some ''tun0'', 1), (Some ''tun1'', 1)] \<le> 1
   \<and> opened_paths (call_log proc_init proc_legacy) = [''/dev/net/tun'', ''/dev/tun'']
   \<and> set (opened_paths (call_log proc_legacy
            (snd (tun_alloc kernel_legacy proc_legacy (Some ''tun1'') 1)))) \<subseteq> {''/dev/tun''}
   \<and> tun_alloc kernel_denied proc_init (Some ''tun0'') 1 =
       (- 1, proc_init\<lparr>events := events proc_init @ [EvOpen (tun_dev proc_init) (- 1) 13]\<rparr>)"
proof -
  have r1: "tun_alloc kernel_legacy proc_init (Some ''tun0'') 1 = (3, proc_legacy)"
    by (simp add: tun_eval kernel_legacy_def proc_legacy_def)
  have o1: "k_open kernel_legacy (events proc_init) (tun_dev proc_init) = (- 1, ENOENT)"
    by (simp add: kernel_legacy_def proc_init_def)
  have s1: "proc_init = tun_alloc_calls kernel_legacy proc_init []"
    by simp
  have ne: "tun_dev proc_legacy \<noteq> tun_dev proc_init"
    by (simp add: proc_legacy_def proc_init_def)
  note t1 = tun_alloc_fallback_once[OF s1 r1 o1,
      of "[(Some ''tun0'', 1), (Some ''tun1'', 1)]"]
  from t1 have c1: "switches kernel_legacy proc_init [(Some ''tun0'', 1), (Some ''tun1'', 1)] \<le> 1"
    by (rule conjunct1)
  from t1 ne have c2: "opened_paths (call_log proc_init proc_legacy) = [''/dev/net/tun'', ''/dev/tun'']"
    by blast
  obtain r2 s2 where r2: "tun_alloc kernel_legacy proc_legacy (Some ''tun1'') 1 = (r2, s2)"
    by force
  have o2: "k_open kernel_legacy (events proc_legacy) (tun_dev proc_legacy) = (3, 0)"
    by (simp add: kernel_legacy_def proc_legacy_def)
  have s2: "proc_legacy = tun_alloc_calls kernel_legacy proc_init [(Some ''tun0'', 1)]"
    by (simp add: r1)
  have re: "retried proc_legacy"
    by (simp add: proc_legacy_def)
  note t2 = tun_alloc_fallback_once[OF s2 r2 o2, of "[]"]
  from t2 re have "set (opened_paths (call_log proc_legacy s2)) \<subseteq> {''/dev/tun''}"
    by blast
  then have c3: "set (opened_paths (call_log proc_legacy
            (snd (tun_alloc kernel_legacy proc_legacy (Some ''tun1'') 1)))) \<subseteq> {''/dev/tun''}"
    by (simp add: r2)
  obtain r3 s3 where r3: "tun_alloc kernel_denied proc_init (Some ''tun0'') 1 = (r3, s3)"
    by force
  have o3: "k_open kernel_denied (events proc_init) (tun_dev proc_init) = (- 1, 13)"
    by (simp add: kernel_denied_def)
  have s3: "proc_init = tun_alloc_calls kernel_denied proc_init []"
    by simp
  have g: "Some ''tun0'' \<noteq> None \<and> Some ''tun0'' \<noteq> Some [] \<and> (- 1 :: int) < 0 \<and>
      \<not> (\<not> retried proc_init \<and> (13 :: int) = ENOENT)"
    by (simp add: ENOENT_def)
  note t3 = tun_alloc_fallback_once[OF s3 r3 o3, of "[]"]
  from t3 g have "r3 = - 1 \<and>
      s3 = proc_init\<lparr>events := events proc_init @ [EvOpen (tun_dev proc_init) (- 1) 13]\<rparr>"
    by blast
  with r3 have c4: "tun_alloc kernel_denied proc_init (Some ''tun0'') 1 =
       (- 1, proc_init\<lparr>events := events proc_init @ [EvOpen (tun_dev proc_init) (- 1) 13]\<rparr>)"
    by simp
  from r1 c1 c2 c3 c4 show ?thesis by blast
qed

text \<open>
  C8 does not hold: a name of more than 15 characters is not refused. On a kernel that
  accepts every request, the 19-character name below gets a descriptor, and the bind
  carries its first 15 characters.
\<close>

theorem tun_alloc_long_name_not_rejected:
  "15 < length ''tun0123456789abcdef'' \<and>
   tun_alloc kernel_ok proc_init (Some ''tun0123456789abcdef'') 1 =
     (3, proc_init\<lparr>events := [EvOpen ''/dev/net/tun'' 3 0,
         EvIoctl 3 \<lparr>ifr_name = ''tun0123456789ab'', ifr_flags = 1\<rparr> 0]\<rparr>)
   \<and> fst (tun_alloc kernel_ok proc_init (Some ''tun0123456789abcdef'') 1) \<noteq> - EINVAL"
  by (simp add: tun_eval kernel_ok_def)

text \<open>
  C8, amended. For every interface name longer than 15 characters, \<open>tun_alloc\<close> goes on
  to open a device node instead of refusing the name; every bind it issues carries the
  first 15 characters of the name; and when it returns a descriptor, the last thing it
  did was a bind of that descriptor to the truncated name, which the kernel accepted.
\<close>

theorem tun_alloc_long_name_truncated:
  assumes "15 < length d" and "tun_alloc k s (Some d) flags = (r, s')"
  shows "opened_paths (call_log s s') \<noteq> [] \<and>
     (\<forall>fd ifr rv. EvIoctl fd ifr rv \<in> set (call_log s s') \<longrightarrow> ifr_name ifr = take 15 d) \<and>
     (0 \<le> r \<longrightarrow> (\<exists>rv. 0 \<le> rv \<and>
         last (call_log s s') =
           EvIoctl r \<lparr>ifr_name = take 15 d, ifr_flags = word_of_int flags\<rparr> rv))"
proof -
  from assms(1) have d: "d \<noteq> []" by auto
  from tun_alloc_log_shape[OF d assms(2) refl]
  obtain pre p fd' err rv' where
    pre: "pre = [] \<or> (\<exists>f. pre = [EvOpen (tun_dev s) f ENOENT] \<and> f < 0 \<and> \<not> retried s)"
    and sh: "(fd' < 0 \<and> r = fd' \<and> call_log s s' = pre @ [EvOpen p fd' err])
        \<or> (0 \<le> fd' \<and> rv' < 0 \<and> r = rv' \<and>
             call_log s s' = pre @ [EvOpen p fd' err,
               EvIoctl fd' \<lparr>ifr_name = take 15 d, ifr_flags = word_of_int flags\<rparr> rv', EvClose fd'])
        \<or> (0 \<le> fd' \<and> 0 \<le> rv' \<and> r = fd' \<and>
             call_log s s' = pre @ [EvOpen p fd' err,
               EvIoctl fd' \<lparr>ifr_name = take 15 d, ifr_flags = word_of_int flags\<rparr> rv'])"
    by blast
  have 1: "opened_paths (call_log s s') \<noteq> []" using pre sh by auto
  have 2: "\<forall>fd ifr rv. EvIoctl fd ifr rv \<in> set (call_log s s') \<longrightarrow> ifr_name ifr = take 15 d"
    using pre sh by auto
  have 3: "0 \<le> r \<longrightarrow> (\<exists>rv. 0 \<le> rv \<and>
         last (call_log s s') =
           EvIoctl r \<lparr>ifr_name = take 15 d, ifr_flags = word_of_int flags\<rparr> rv)"
    using pre sh by auto
  from 1 2 3 show ?thesis by blast
qed

theorem tun_alloc_long_name_truncated_witness:
  "15 < length ''tun0123456789abcdef'' \<and>
   opened_paths (call_log proc_init (snd (tun_alloc kernel_ok proc_init
       (Some ''tun0123456789abcdef'') 1))) \<noteq> [] \<and>
   last (call_log proc_init (snd (tun_alloc kernel_ok proc_init
       (Some ''tun0123456789abcdef'') 1))) =
     EvIoctl 3 \<lparr>ifr_name = ''tun0123456789ab'', ifr_flags = 1\<rparr> 0"
  using tun_alloc_long_name_truncated[of "''tun0123456789abcdef''" kernel_ok proc_init 1 3
      "proc_init\<lparr>events := [EvOpen ''/dev/net/tun'' 3 0,
         EvIoctl 3 \<lparr>ifr_name = ''tun0123456789ab'', ifr_flags = 1\<rparr> 0]\<rparr>"]
  by (simp add: tun_eval kernel_ok_def)

section \<open>Properties of \<open>raise_up_iface\<close>\<close>

subsection \<open>Decimal text and the address parser\<close>

lemma digit_val_lt: "is_digit ch \<Longrightarrow> digit_val ch < 10"
  by (auto simp: is_digit_def digit_val_def)

lemma digit_char_val: "is_digit ch \<Longrightarrow> digit_char (digit_val ch) = ch"
  by (simp add: is_digit_def digit_val_def digit_char_def)

lemma dec_digit: "d < 10 \<Longrightarrow> dec d = [digit_char d]"
  by (simp add: dec.simps)

lemma dec_step: "0 < n \<Longrightarrow> d < 10 \<Longrightarrow> dec (n * 10 + d) = dec n @ [digit_char d]"
  by (subst dec.simps) simp

lemma length_dec: "n < 10 ^ k \<Longrightarrow> 0 < k \<Longrightarrow> length (dec n) \<le> k"
proof (induction k arbitrary: n)
  case 0
  then show ?case by simp
next
  case (Suc k)
  show ?case
  proof (cases "n < 10")
    case True
    then show ?thesis by (simp add: dec_digit)
  next
    case False
    with Suc.prems have k: "0 < k" by (cases k) auto
    from Suc.prems have "n div 10 < 10 ^ k" by (simp add: less_mult_imp_div_less mult.commute)
    from Suc.IH[OF this k] False show ?thesis by (subst dec.simps) simp
  qed
qed

lemma dotted_snoc: "dotted (xs @ [x]) = dotted xs @ dec x @ ''.''"
  by (simp add: dotted_def)

lemma inet_pton4_loop_render:
  assumes "inet_pton4_loop src saw octets done cur = Some bs"
    and "octets \<le> 4" and "\<not> saw \<longrightarrow> cur = 0 \<and> octets < 4"
  shows "dotted done @ (if saw then dec cur else []) @ src = dotted (butlast bs) @ dec (last bs)"
  using assms
proof (induction src arbitrary: saw octets "done" cur)
  case Nil
  then show ?case by (auto split: if_splits)
next
  case (Cons ch src)
  show ?case
  proof (cases "is_digit ch")
    case True
    note dg = digit_val_lt[OF True] digit_char_val[OF True]
    show ?thesis
    proof (cases saw)
      case True
      with Cons.prems \<open>is_digit ch\<close> have nz: "0 < cur"
        and rec: "inet_pton4_loop src True octets done (cur * 10 + digit_val ch) = Some bs"
        by (auto simp: Let_def split: if_splits)
      from Cons.IH[OF rec] Cons.prems(2) True dec_step[OF nz dg(1)] dg(2) show ?thesis by simp
    next
      case False
      with Cons.prems \<open>is_digit ch\<close> have z: "cur = 0" and o: "octets + 1 \<le> 4"
        and rec: "inet_pton4_loop src True (octets + 1) done (digit_val ch) = Some bs"
        by (auto simp: Let_def split: if_splits)
      from Cons.IH[OF rec o] False dec_digit[OF dg(1)] dg(2) show ?thesis by simp
    qed
  next
    case False
    with Cons.prems have dot: "ch = CHR ''.''" and saw: saw and o4: "octets < 4"
      and rec: "inet_pton4_loop src False octets (done @ [cur]) 0 = Some bs"
      by (auto split: if_splits)
    from Cons.IH[OF rec] o4 saw dot show ?thesis by (simp add: dotted_snoc)
  qed
qed

lemma inet_pton4_loop_bound:
  assumes "inet_pton4_loop src saw octets done cur = Some bs"
    and "\<forall>x\<in>set done. x \<le> 255" and "cur \<le> 255"
  shows "\<forall>x\<in>set bs. x \<le> 255"
  using assms
proof (induction src arbitrary: saw octets "done" cur)
  case Nil
  then show ?case by (auto split: if_splits)
next
  case (Cons ch src)
  show ?case
  proof (cases "is_digit ch")
    case True
    with Cons.prems(1) obtain saw' octets' where
      rec: "inet_pton4_loop src saw' octets' done (cur * 10 + digit_val ch) = Some bs"
      and le: "cur * 10 + digit_val ch \<le> 255"
      by (auto simp: Let_def split: if_splits)
    from Cons.IH[OF rec Cons.prems(2) le] show ?thesis .
  next
    case False
    with Cons.prems(1) have
      rec: "inet_pton4_loop src False octets (done @ [cur]) 0 = Some bs"
      by (auto split: if_splits)
    from Cons.IH[OF rec] Cons.prems(2,3) show ?thesis by simp
  qed
qed

lemma inet_pton4_ntop4:
  assumes "inet_pton4 s = Some bs"
  shows "inet_ntop4 bs = s"
proof -
  from assms obtain a b c d where
    loop: "inet_pton4_loop s False 0 [] 0 = Some [a, b, c, d]"
    and bs: "bs = (of_nat a, of_nat b, of_nat c, of_nat d)"
    by (auto simp: inet_pton4_def split: option.splits list.splits)
  from inet_pton4_loop_bound[OF loop] have le: "a \<le> 255" "b \<le> 255" "c \<le> 255" "d \<le> 255"
    by simp_all
  then have u: "unat (of_nat a :: 8 word) = a" "unat (of_nat b :: 8 word) = b"
      "unat (of_nat c :: 8 word) = c" "unat (of_nat d :: 8 word) = d"
    by (simp_all add: unat_of_nat)
  from inet_pton4_loop_render[OF loop]
  have "s = dotted [a, b, c] @ dec d" by (simp add: dotted_def)
  with u show ?thesis by (simp add: bs dotted_def)
qed

lemma length_inet_ntop4: "length (inet_ntop4 bs) \<le> 15"
proof -
  obtain a b c d where bs: "bs = (a, b, c, d)" by (cases bs) auto
  have l: "length (dec (unat x)) \<le> 3" for x :: "8 word"
  proof -
    have "unat x < 2 ^ LENGTH(8)" by (rule unsigned_less)
    then have "unat x < 10 ^ 3" by simp
    then show ?thesis by (rule length_dec) simp
  qed
  from l[of a] l[of b] l[of c] l[of d] show ?thesis by (simp add: bs)
qed

subsection \<open>Byte order and the prefix loop\<close>

lemma bytes_of_host_of_bytes: "bytes_of_host e (host_of_bytes e bs) = bs"
proof -
  obtain a b c d where bs: "bs = (a, b, c, d)" by (cases bs) auto
  show ?thesis unfolding bs
    by (cases e) (auto simp: bit_eq_iff bit_simps dest: bit_imp_le_length)
qed



lemma cidr_loop_le:
  "unat tmp < 2 ^ k \<Longrightarrow> unat c + k < 256 \<Longrightarrow> unat (cidr_loop c tmp) \<le> unat c + k"
proof (induction k arbitrary: c tmp)
  case 0
  then have "tmp = 0" by (simp add: unat_eq_zero)
  then show ?case by (simp add: cidr_loop.simps)
next
  case (Suc k)
  show ?case
  proof (cases "tmp = 0")
    case True
    then show ?thesis by (simp add: cidr_loop.simps)
  next
    case False
    from Suc.prems(1) have 1: "unat (drop_bit 1 tmp) < 2 ^ k"
      by (simp add: drop_bit_eq_div unat_div)
    have c1: "unat (c + 1) = unat c + 1"
      using Suc.prems(2) by (simp add: unat_add_lem[THEN iffD1])
    with Suc.prems(2) have 2: "unat (c + 1) + k < 256" by simp
    from Suc.IH[OF 1 2] c1 False show ?thesis
      by (subst cidr_loop.simps) simp
  qed
qed

lemma cidr_loop_le_32: "cidr_loop 0 m \<le> 32"
proof -
  have "unat m < 2 ^ LENGTH(32)" by (rule unsigned_less)
  then have "unat m < 2 ^ 32" by simp
  from cidr_loop_le[OF this, of 0] have "unat (cidr_loop 0 m) \<le> 32" by simp
  then show ?thesis by (simp add: word_le_nat_alt)
qed

subsection \<open>The three phases of the function\<close>

lemma snprintf_at_append:
  assumes "length dst < cap" and "length text < sz"
  shows "snprintf_at cap dst (strnlen dst cap) sz text =
     (if cap < length dst + length text + 1 then None else Some (dst @ text))"
  using assms by (simp add: snprintf_at_def strnlen_def Let_def)

lemma length_cidr_text: "c \<le> 32 \<Longrightarrow> length (''/'' @ dec (unat (c :: 8 word))) \<le> 3"
proof -
  assume "c \<le> 32"
  then have "unat c \<le> 32" by (simp add: word_le_nat_alt)
  then have "unat c < 10 ^ 2" by simp
  from length_dec[OF this] show ?thesis by simp
qed

lemma length_inet_pton4: "inet_pton4 s = Some bs \<Longrightarrow> length s \<le> 15"
  using inet_pton4_ntop4[of s bs] length_inet_ntop4[of bs] by simp

lemma inet_ntop_fits: "16 \<le> sz \<Longrightarrow> inet_ntop e w sz = Some (inet_ntop4 (bytes_of_host e w))"
  using length_inet_ntop4[of "bytes_of_host e w"] by (simp add: inet_ntop_def Let_def)

lemma derive_addresses_ok:
  assumes ip: "inet_pton4 (ipv4 cfg) = Some a"
    and mask: "inet_pton4 (ipv4_netmask cfg) = Some m"
    and n: "3 \<le> ipv4len"
    and A: "A = host_of_bytes e a" and M: "M = host_of_bytes e m"
    and c: "c = cidr_loop 0 M"
  shows "derive_addresses e ipv4len cfg =
     Inr (locals_init\<lparr>
       u_ipv4 := ipv4 cfg @ ''/'' @ dec (unat c),
       u_ipv4_netmask := ipv4_netmask cfg,
       u_ipv4_network := inet_ntop4 (bytes_of_host e (A AND M)) @ ''/'' @ dec (unat c),
       u_ipv4_broadcast := inet_ntop4 (bytes_of_host e ((A AND M) OR NOT M)),
       b_ipv4 := A, b_ipv4_network := A AND M, b_ipv4_netmask := M,
       b_ipv4_broadcast := (A AND M) OR NOT M,
       cidr := c, l_mtu := mtu cfg\<rparr>)"
proof -
  have cp1: "strncpy (ipv4 cfg) (IPV4SAFE ipv4len - Suc 0) = ipv4 cfg"
    using length_inet_pton4[OF ip] by (simp add: strncpy_def IPV4SAFE_def)
  have cp2: "strncpy (ipv4_netmask cfg) (IPV4SAFE ipv4len - Suc 0) = ipv4_netmask cfg"
    using length_inet_pton4[OF mask] by (simp add: strncpy_def IPV4SAFE_def)
  have p1: "inet_pton e (ipv4 cfg) = Some A" by (simp add: inet_pton_def ip A)
  have p2: "inet_pton e (ipv4_netmask cfg) = Some M" by (simp add: inet_pton_def mask M)
  have c32: "\<not> 32 < c" unfolding c using cidr_loop_le_32[of M] by simp
  then have lc: "length (''/'' @ dec (unat c)) \<le> 3" by (intro length_cidr_text) simp
  have sn: "snprintf_at (IPV4SAFE ipv4len) dst (strnlen dst (IPV4SAFE ipv4len)) (IPV4SAFE ipv4len)
        (''/'' @ dec (unat c)) = Some (dst @ ''/'' @ dec (unat c))" if "length dst \<le> 15" for dst
    using that lc n by (subst snprintf_at_append) (simp_all add: IPV4SAFE_def)
  have sn1: "snprintf_at (IPV4SAFE ipv4len) (ipv4 cfg) (strnlen (ipv4 cfg) (IPV4SAFE ipv4len))
        (IPV4SAFE ipv4len) (CHR ''/'' # dec (unat c)) = Some (ipv4 cfg @ ''/'' @ dec (unat c))"
    using sn[OF length_inet_pton4[OF ip]] by simp
  have sn2: "snprintf_at (IPV4SAFE ipv4len) (inet_ntop4 (bytes_of_host e (A AND M)))
        (strnlen (inet_ntop4 (bytes_of_host e (A AND M))) (IPV4SAFE ipv4len))
        (IPV4SAFE ipv4len) (CHR ''/'' # dec (unat c)) =
        Some (inet_ntop4 (bytes_of_host e (A AND M)) @ ''/'' @ dec (unat c))"
    using sn[OF length_inet_ntop4] by simp
  have nt: "inet_ntop e w (IPV4SAFE ipv4len) = Some (inet_ntop4 (bytes_of_host e w))" for w
    by (rule inet_ntop_fits) (simp add: IPV4SAFE_def)
  show ?thesis
    unfolding derive_addresses_def
    using c32 by (simp add: cp1 cp2 p1 p2 c[symmetric] sn1 sn2 nt locals_init_def Let_def)
qed

lemma snprintf_at_Some:
  assumes "snprintf_at cap dst (strnlen dst cap) sz text = Some s"
    and "length dst < cap" and "length text < sz"
  shows "s = dst @ text"
  using assms by (simp add: snprintf_at_append split: if_splits)

lemma derive_addresses_Inr:
  assumes "derive_addresses e ipv4len cfg = Inr l"
  shows "l_mtu l = mtu cfg \<and>
    u_ipv4 l = strncpy (ipv4 cfg) (IPV4SAFE ipv4len - 1) @ ''/'' @ dec (unat (cidr l)) \<and>
    Some (b_ipv4 l) = inet_pton e (strncpy (ipv4 cfg) (IPV4SAFE ipv4len - 1)) \<and>
    Some (b_ipv4_netmask l) = inet_pton e (strncpy (ipv4_netmask cfg) (IPV4SAFE ipv4len - 1)) \<and>
    cidr l = cidr_loop 0 (b_ipv4_netmask l) \<and>
    b_ipv4_broadcast l = (b_ipv4 l AND b_ipv4_netmask l) OR NOT (b_ipv4_netmask l) \<and>
    u_ipv4_broadcast l = inet_ntop4 (bytes_of_host e (b_ipv4_broadcast l))"
proof -
  let ?ip = "strncpy (ipv4 cfg) (IPV4SAFE ipv4len - 1)"
  let ?mk = "strncpy (ipv4_netmask cfg) (IPV4SAFE ipv4len - 1)"
  from assms obtain m where m: "inet_pton e ?mk = Some m"
    by (auto simp: derive_addresses_def Let_def split: option.splits)
  define c where "c = cidr_loop 0 m"
  from assms m obtain a where a: "inet_pton e ?ip = Some a"
    by (auto simp: derive_addresses_def Let_def split: option.splits if_splits)
  have c32: "\<not> 32 < c" unfolding c_def using cidr_loop_le_32[of m] by simp
  then have lc: "length (''/'' @ dec (unat c)) \<le> 3" by (intro length_cidr_text) simp
  have lip: "length ?ip < IPV4SAFE ipv4len" by (simp add: strncpy_def IPV4SAFE_def)
  have lsz: "length (''/'' @ dec (unat c)) < IPV4SAFE ipv4len" using lc by (simp add: IPV4SAFE_def)
  from assms m a c32 obtain s1 where
    s1: "snprintf_at (IPV4SAFE ipv4len) ?ip (strnlen ?ip (IPV4SAFE ipv4len)) (IPV4SAFE ipv4len)
           (''/'' @ dec (unat c)) = Some s1"
    by (auto simp: derive_addresses_def Let_def c_def locals_init_def split: option.splits)
  from snprintf_at_Some[OF s1 lip lsz] have s1e: "s1 = ?ip @ ''/'' @ dec (unat c)" .
  have nt: "inet_ntop e w (IPV4SAFE ipv4len) = Some (inet_ntop4 (bytes_of_host e w))" for w
    by (rule inet_ntop_fits) (simp add: IPV4SAFE_def)
  from assms m a c32 s1 show ?thesis
    by (auto simp: derive_addresses_def Let_def c_def[symmetric] locals_init_def nt s1e
             split: option.splits)
qed

lemma escape_args_Inr:
  assumes "escape_args esc ipv4len cfg l = Inr l'"
  shows "l' = l\<lparr>e_ipv4_network := esc (u_ipv4_network l),
                 e_ipv4_broadcast := esc (u_ipv4_broadcast l),
                 e_dev := esc (dev cfg), e_ipv4 := esc (u_ipv4 l)\<rparr> \<and>
         length (esc (dev cfg)) < 32 \<and>
         length (esc (u_ipv4 l)) < IPV4SAFE ipv4len \<and>
         length (esc (u_ipv4_broadcast l)) < IPV4SAFE ipv4len"
  using assms
  by (auto simp: escape_args_def simple_esc_arg_def Let_def split: option.splits if_splits)

lemma exec_cmds_cases:
  assumes "exec_cmds sys l w = (st, w')"
    and "c1 = take 1023 (''/sbin/ip link set dev '' @ e_dev l @ '' up mtu '' @ dec (unat (l_mtu l)))"
    and "c2 = take 1023 (''/sbin/ip addr add dev '' @ e_dev l @ '' '' @ e_ipv4 l @ '' broadcast '' @
                  e_ipv4_broadcast l)"
  shows "(sys (executed w) c1 < 0 \<and> st = Returned False \<and> w' = w\<lparr>executed := executed w @ [c1]\<rparr>)
    \<or> (0 \<le> sys (executed w) c1 \<and> sys (executed w @ [c1]) c2 < 0 \<and> st = Returned False \<and>
        w' = w\<lparr>executed := executed w @ [c1, c2]\<rparr>)
    \<or> (0 \<le> sys (executed w) c1 \<and> 0 \<le> sys (executed w @ [c1]) c2 \<and> st = Returned True \<and>
        w' = w\<lparr>executed := executed w @ [c1, c2]\<rparr>)"
  using assms by (auto simp: exec_cmds_def EXEC_CMD_def Let_def split: if_splits)

lemma raise_up_iface_cases:
  assumes "raise_up_iface e ipv4len esc sys w = (st, w')"
  obtains (early) "w' = w" "st \<noteq> Returned True"
  | (ran) l l' where "derive_addresses e ipv4len (iface w) = Inr l"
      "escape_args esc ipv4len (iface w) l = Inr l'" "exec_cmds sys l' w = (st, w')"
proof (cases "derive_addresses e ipv4len (iface w)")
  case (Inl a)
  then have "a \<noteq> Returned True"
    by (auto simp: derive_addresses_def Let_def split: option.splits if_splits)
  with Inl assms early show ?thesis by (simp add: raise_up_iface_def)
next
  case (Inr l)
  show ?thesis
  proof (cases "escape_args esc ipv4len (iface w) l")
    case (Inl a)
    then have "a \<noteq> Returned True"
      by (auto simp: escape_args_def Let_def split: option.splits if_splits)
    with Inl Inr assms early show ?thesis by (simp add: raise_up_iface_def)
  next
    case r: (Inr l')
    with Inr assms ran show ?thesis by (simp add: raise_up_iface_def)
  qed
qed

lemmas cfg_eval = inet_pton4_def inet_pton_def is_digit_def digit_val_def digit_char_def
  char_of_eq_iff dec.simps cidr_loop.simps

lemma length_dec_mtu: "length (dec (unat (x :: 16 word))) \<le> 5"
proof -
  have "unat x < 2 ^ LENGTH(16)" by (rule unsigned_less)
  then have "unat x < 10 ^ 5" by simp
  then show ?thesis by (rule length_dec) simp
qed

text \<open>
  An escaped interface name of 32 characters or more does not fit \<open>e_dev\<close>, whatever
  the escaping function is: once the addresses are derived, the run ends in the overrun.
\<close>

lemma escape_args_overrun_dev:
  assumes "32 \<le> length (esc (dev cfg))"
  shows "escape_args esc ipv4len cfg l = Inl Overrun"
  using assms
  by (simp add: escape_args_def simple_esc_arg_def Let_def split: option.splits)

lemma raise_up_iface_overrun_dev:
  assumes "derive_addresses e ipv4len (iface w) = Inr l"
    and "32 \<le> length (esc (dev (iface w)))"
  shows "raise_up_iface e ipv4len esc sys w = (Overrun, w)"
  using assms by (simp add: raise_up_iface_def escape_args_overrun_dev)

subsection \<open>A run on a concrete configuration\<close>

lemma unat_minus_one_byte: "unat (- 1 :: 8 word) = 255"
  by (simp add: unsigned_minus_1_eq_mask mask_eq_exp_minus_1)

lemma derive_class_a: "derive_addresses LittleEndian 16 cfg_class_a = Inr locals_class_a"
proof -
  have i: "inet_pton4 (ipv4 cfg_class_a) = Some (10, 0, 0, 1)"
    by (simp add: cfg_class_a_def cfg_eval)
  have m: "inet_pton4 (ipv4_netmask cfg_class_a) = Some (255, 0, 0, 0)"
    by (simp add: cfg_class_a_def cfg_eval)
  have c: "cidr_loop 0 (host_of_bytes LittleEndian (255, 0, 0, 0)) = 8"
    by (simp add: cidr_loop.simps)
  have d: "dec 8 = ''8''"
    by (simp add: cfg_eval)
  have n: "inet_ntop4 (bytes_of_host LittleEndian
        (host_of_bytes LittleEndian (10, 0, 0, 1) AND host_of_bytes LittleEndian (255, 0, 0, 0)))
      = ''10.0.0.0''"
    by (simp add: cfg_eval)
  have b: "inet_ntop4 (bytes_of_host LittleEndian
        ((host_of_bytes LittleEndian (10, 0, 0, 1) AND host_of_bytes LittleEndian (255, 0, 0, 0))
         OR NOT (host_of_bytes LittleEndian (255, 0, 0, 0))))
      = ''10.255.255.255''"
    by (simp add: cfg_eval unat_minus_one_byte)
  show ?thesis
    unfolding derive_addresses_ok[OF i m _ refl refl refl, of 16, simplified] c n b
    by (simp add: d cfg_class_a_def locals_class_a_def locals_init_def)
qed

lemma quote_arg_plain: "CHR 0x27 \<notin> set s \<Longrightarrow> quote_arg s = [CHR 0x27] @ s @ [CHR 0x27]"
proof -
  assume "CHR 0x27 \<notin> set s"
  then have "concat (map (\<lambda>c. if c = CHR 0x27 then [CHR 0x27, CHR 0x5C, CHR 0x27, CHR 0x27] else [c]) s) = s"
    by (induction s) auto
  then show ?thesis by (simp add: quote_arg_def)
qed

lemma escape_class_a:
  "escape_args quote_arg 16 cfg_class_a locals_class_a =
     Inr (locals_class_a\<lparr>e_ipv4_network := quote_arg ''10.0.0.0/8'',
            e_ipv4_broadcast := quote_arg ''10.255.255.255'',
            e_dev := quote_arg ''tun0'', e_ipv4 := quote_arg ''10.0.0.1/8''\<rparr>)"
  by (simp add: escape_args_def simple_esc_arg_def Let_def IPV4SAFE_def quote_arg_plain
        locals_class_a_def cfg_class_a_def)

lemma exec_class_a_ok:
  "exec_cmds system_ok locals_escaped_class_a \<lparr>iface = cfg_class_a, executed = []\<rparr> =
     (Returned True, \<lparr>iface = cfg_class_a, executed = [link_cmd_class_a, addr_cmd_class_a]\<rparr>)"
proof -
  have d: "dec 1500 = ''1500''" by (simp add: cfg_eval)
  show ?thesis
    by (simp add: exec_cmds_def EXEC_CMD_def locals_escaped_class_a_def
        system_ok_def Let_def quote_arg_plain locals_class_a_def d
        link_cmd_class_a_def addr_cmd_class_a_def)
qed

lemma exec_class_a_fails:
  "exec_cmds system_fails locals_escaped_class_a \<lparr>iface = cfg_class_a, executed = []\<rparr> =
     (Returned False, \<lparr>iface = cfg_class_a, executed = [link_cmd_class_a]\<rparr>)"
proof -
  have d: "dec 1500 = ''1500''" by (simp add: cfg_eval)
  show ?thesis
    by (simp add: exec_cmds_def EXEC_CMD_def locals_escaped_class_a_def
        system_fails_def Let_def quote_arg_plain locals_class_a_def d
        link_cmd_class_a_def)
qed

lemma run_class_a_ok:
  "raise_up_iface LittleEndian 16 quote_arg system_ok \<lparr>iface = cfg_class_a, executed = []\<rparr> =
     (Returned True, \<lparr>iface = cfg_class_a, executed = [link_cmd_class_a, addr_cmd_class_a]\<rparr>)"
  by (simp add: raise_up_iface_def derive_class_a escape_class_a exec_class_a_ok
      locals_escaped_class_a_def[symmetric])

lemma run_class_a_fails:
  "raise_up_iface LittleEndian 16 quote_arg system_fails \<lparr>iface = cfg_class_a, executed = []\<rparr> =
     (Returned False, \<lparr>iface = cfg_class_a, executed = [link_cmd_class_a]\<rparr>)"
  by (simp add: raise_up_iface_def derive_class_a escape_class_a exec_class_a_fails
      locals_escaped_class_a_def[symmetric])

subsection \<open>The claims\<close>

text \<open>
  C1 fails on the code. For the netmask \<open>255.255.255.252\<close>, whose 30 set bits are the
  prefix length, the loop of lines 144 to 147 gives 32: it counts the right shifts that
  empty the mask, which is the position of its highest set bit. As an integer of the
  machine the mask is \<open>0xFCFFFFFF\<close> on a little-endian and \<open>0xFFFFFFFC\<close> on a
  big-endian one, and bit 31 is set in both. The address is then annotated \<open>/32\<close>.
\<close>

theorem raise_up_iface_prefix_of_255_255_255_252:
  "map_sum id cidr (derive_addresses LittleEndian 16 cfg_slash30) = Inr 32 \<and>
   map_sum id cidr (derive_addresses BigEndian 16 cfg_slash30) = Inr 32 \<and>
   map_sum id u_ipv4 (derive_addresses LittleEndian 16 cfg_slash30) = Inr ''10.0.0.1/32'' \<and>
   map_option set_bits (inet_pton LittleEndian ''255.255.255.252'') = Some 30 \<and>
   map_option set_bits (inet_pton BigEndian ''255.255.255.252'') = Some 30"
proof -
  have sl: "map_option set_bits (inet_pton LittleEndian ''255.255.255.252'') = Some 30"
    by (simp add: cfg_eval set_bits_def ones.simps)
  have sb: "map_option set_bits (inet_pton BigEndian ''255.255.255.252'') = Some 30"
    by (simp add: cfg_eval set_bits_def ones.simps)
  have i: "inet_pton4 (ipv4 cfg_slash30) = Some (10, 0, 0, 1)"
    by (simp add: cfg_slash30_def cfg_eval)
  have m: "inet_pton4 (ipv4_netmask cfg_slash30) = Some (255, 255, 255, 252)"
    by (simp add: cfg_slash30_def cfg_eval)
  have l: "cidr_loop 0 (host_of_bytes LittleEndian (255, 255, 255, 252)) = 32"
    by (simp add: cidr_loop.simps)
  have b: "cidr_loop 0 (host_of_bytes BigEndian (255, 255, 255, 252)) = 32"
    by (simp add: cidr_loop.simps)
  have d: "dec 32 = ''32''"
    by (simp add: cfg_eval)
  have "map_sum id cidr (derive_addresses LittleEndian 16 cfg_slash30) = Inr 32 \<and>
   map_sum id cidr (derive_addresses BigEndian 16 cfg_slash30) = Inr 32 \<and>
   map_sum id u_ipv4 (derive_addresses LittleEndian 16 cfg_slash30) = Inr ''10.0.0.1/32''"
    unfolding derive_addresses_ok[OF i m _ refl refl refl, of 16, simplified] l b
    by (simp add: d cfg_slash30_def)
  with sl sb show ?thesis by blast
qed

text \<open>
  C2 fails on the code. \<open>simple_esc_arg\<close> writes the escaped interface name into
  \<open>e_dev[32]\<close> without a bound. For the name of eight single quotes, each written as
  \<open>'\''\<close> between the two enclosing quotes, the escaped text has 34 characters: with its
  terminator it needs 35 bytes, and the write passes the end of the buffer before any
  command line is built. From there on C defines nothing, so nothing is left of the
  promise that the name reaches the command lines in its escaped form.
\<close>

theorem raise_up_iface_escaped_name_overruns:
  "length (dev cfg_quotes) = 8 \<and>
   length (quote_arg (dev cfg_quotes)) = 34 \<and>
   simple_esc_arg quote_arg 32 (dev cfg_quotes) = None \<and>
   raise_up_iface LittleEndian 16 quote_arg system_ok \<lparr>iface = cfg_quotes, executed = []\<rparr> =
     (Overrun, \<lparr>iface = cfg_quotes, executed = []\<rparr>)"
proof -
  have n: "length (dev cfg_quotes) = 8"
    by (simp add: cfg_quotes_def)
  have q: "length (quote_arg (dev cfg_quotes)) = 34"
    by (simp add: cfg_quotes_def quote_arg_def)
  have e: "simple_esc_arg quote_arg 32 (dev cfg_quotes) = None"
    by (simp add: simple_esc_arg_def q)
  have i: "inet_pton4 (ipv4 cfg_quotes) = Some (10, 0, 0, 1)"
    by (simp add: cfg_quotes_def cfg_eval)
  have m: "inet_pton4 (ipv4_netmask cfg_quotes) = Some (255, 0, 0, 0)"
    by (simp add: cfg_quotes_def cfg_eval)
  have three: "(3 :: nat) \<le> 16"
    by simp
  note d = derive_addresses_ok[OF i m three refl refl refl, of LittleEndian]
  have "raise_up_iface LittleEndian 16 quote_arg system_ok \<lparr>iface = cfg_quotes, executed = []\<rparr> =
     (Overrun, \<lparr>iface = cfg_quotes, executed = []\<rparr>)"
    by (rule raise_up_iface_overrun_dev) (simp_all add: d q)
  with n q e show ?thesis by blast
qed

text \<open>
  What the code does keep: let \<open>IPV4LEN\<close> be at most 464, so that a command line fits
  \<open>buf\<close>. Whenever \<open>raise_up_iface\<close> returns, which it does when every escaped text
  fits its buffer, the command lines it handed to \<open>system\<close> are none, the first, or
  both of: the link command, which is the fixed text around the escaped interface name
  and the MTU in decimal; and the address command, which is the fixed text around the
  escaped interface name, the escaped CIDR-annotated address (the copied \<open>ipv4\<close>
  text, a slash and the prefix length) and the escaped broadcast address. This holds for
  every escaping function.
\<close>

lemma commands_escaped_when_returned:
  assumes "ipv4len \<le> 464" and "raise_up_iface e ipv4len esc sys w = (Returned b, w')"
  shows "executed w' = executed w \<or>
    (\<exists>l. derive_addresses e ipv4len (iface w) = Inr l \<and>
       u_ipv4 l = strncpy (ipv4 (iface w)) (IPV4SAFE ipv4len - 1) @ ''/'' @ dec (unat (cidr l)) \<and>
       (executed w' = executed w @
          [''/sbin/ip link set dev '' @ esc (dev (iface w)) @ '' up mtu '' @
             dec (unat (mtu (iface w)))]
        \<or> executed w' = executed w @
          [''/sbin/ip link set dev '' @ esc (dev (iface w)) @ '' up mtu '' @
             dec (unat (mtu (iface w))),
           ''/sbin/ip addr add dev '' @ esc (dev (iface w)) @ '' '' @ esc (u_ipv4 l) @
             '' broadcast '' @ esc (u_ipv4_broadcast l)]))"
  using assms(2)
proof (cases rule: raise_up_iface_cases)
  case early
  then show ?thesis by simp
next
  case (ran l l')
  note d = derive_addresses_Inr[OF ran(1)]
  note es = escape_args_Inr[OF ran(2)]
  let ?c1 = "''/sbin/ip link set dev '' @ esc (dev (iface w)) @ '' up mtu '' @
             dec (unat (mtu (iface w)))"
  let ?c2 = "''/sbin/ip addr add dev '' @ esc (dev (iface w)) @ '' '' @ esc (u_ipv4 l) @
             '' broadcast '' @ esc (u_ipv4_broadcast l)"
  have l1: "length ?c1 \<le> 1023"
    using es length_dec_mtu[of "mtu (iface w)"] by simp
  have l2: "length ?c2 \<le> 1023"
    using es assms(1) by (simp add: IPV4SAFE_def)
  have c1: "take 1023 (''/sbin/ip link set dev '' @ e_dev l' @ '' up mtu '' @ dec (unat (l_mtu l')))
      = ?c1"
    using l1 es d by simp
  have c2: "take 1023 (''/sbin/ip addr add dev '' @ e_dev l' @ '' '' @ e_ipv4 l' @ '' broadcast '' @
                  e_ipv4_broadcast l') = ?c2"
    using l2 es by simp
  from exec_cmds_cases[OF ran(3) c1[symmetric] c2[symmetric]]
  have "executed w' = executed w @ [?c1] \<or> executed w' = executed w @ [?c1, ?c2]"
    by auto
  with ran(1) d show ?thesis by blast
qed

lemma commands_escaped_when_returned_class_a:
  "raise_up_iface LittleEndian 16 quote_arg system_ok \<lparr>iface = cfg_class_a, executed = []\<rparr> =
     (Returned True, \<lparr>iface = cfg_class_a, executed =
        [''/sbin/ip link set dev '' @ quote_arg ''tun0'' @ '' up mtu 1500'',
         ''/sbin/ip addr add dev '' @ quote_arg ''tun0'' @ '' '' @ quote_arg ''10.0.0.1/8'' @
           '' broadcast '' @ quote_arg ''10.255.255.255'']\<rparr>)"
proof -
  have n: "(16 :: nat) \<le> 464" by simp
  from commands_escaped_when_returned[OF n run_class_a_ok] run_class_a_ok show ?thesis
    by (simp add: link_cmd_class_a_def addr_cmd_class_a_def)
qed



text \<open>
  C5. Whenever a run of \<open>raise_up_iface\<close> handed a first command line to \<open>system\<close>
  and \<open>system\<close> answered it with a negative value, the function returns \<open>false\<close>
  and no second command line was handed over; that first command line is the link
  command.
\<close>

theorem raise_up_iface_stops_after_failed_link_up:
  assumes "raise_up_iface e ipv4len esc sys w = (st, w')"
    and "executed w' = executed w @ c # cs"
    and "sys (executed w) c < 0"
  shows "st = Returned False \<and> cs = [] \<and>
    c = take 1023 (''/sbin/ip link set dev '' @ esc (dev (iface w)) @ '' up mtu '' @
                     dec (unat (mtu (iface w))))"
  using assms(1)
proof (cases rule: raise_up_iface_cases)
  case early
  with assms(2) show ?thesis by simp
next
  case (ran l l')
  note d = derive_addresses_Inr[OF ran(1)]
  note es = escape_args_Inr[OF ran(2)]
  from exec_cmds_cases[OF ran(3) refl refl] assms(2,3)
  have "st = Returned False \<and> cs = [] \<and>
    c = take 1023 (''/sbin/ip link set dev '' @ e_dev l' @ '' up mtu '' @ dec (unat (l_mtu l')))"
    by auto
  with es d show ?thesis by simp
qed

theorem raise_up_iface_stops_after_failed_link_up_witness:
  "raise_up_iface LittleEndian 16 quote_arg system_fails \<lparr>iface = cfg_class_a, executed = []\<rparr> =
     (Returned False, \<lparr>iface = cfg_class_a, executed = [link_cmd_class_a]\<rparr>) \<and>
   system_fails [] link_cmd_class_a < 0 \<and>
   link_cmd_class_a = take 1023 (''/sbin/ip link set dev '' @ quote_arg ''tun0'' @ '' up mtu '' @
                     dec (unat (1500 :: 16 word)))"
proof -
  have n: "system_fails (executed \<lparr>iface = cfg_class_a, executed = []\<rparr>) link_cmd_class_a < 0"
    by (simp add: system_fails_def)
  have x: "executed \<lparr>iface = cfg_class_a, executed = [link_cmd_class_a]\<rparr> =
      executed \<lparr>iface = cfg_class_a, executed = []\<rparr> @ link_cmd_class_a # []"
    by simp
  from raise_up_iface_stops_after_failed_link_up[OF run_class_a_fails x n] run_class_a_fails n
  show ?thesis
    by (simp add: cfg_class_a_def)
qed

text \<open>
  C9. For every text that \<open>inet_pton\<close> accepts, on either byte order, \<open>inet_ntop\<close>
  of the integer it stored gives the same text back, in any buffer of at least 16 bytes.
\<close>

theorem inet_pton_ntop_roundtrip:
  assumes "inet_pton e s = Some w" and "16 \<le> sz"
  shows "inet_ntop e w sz = Some s"
proof -
  from assms(1) obtain bs where bs: "inet_pton4 s = Some bs" and w: "w = host_of_bytes e bs"
    by (auto simp: inet_pton_def)
  from inet_pton4_ntop4[OF bs] show ?thesis
    by (simp add: inet_ntop_fits[OF assms(2)] w bytes_of_host_of_bytes)
qed

theorem inet_pton_ntop_roundtrip_witness:
  "inet_pton LittleEndian ''192.168.1.5'' = Some 0x0501A8C0 \<and>
   inet_ntop LittleEndian 0x0501A8C0 32 = Some ''192.168.1.5''"
proof -
  have p: "inet_pton LittleEndian ''192.168.1.5'' = Some 0x0501A8C0"
    by (simp add: cfg_eval)
  from inet_pton_ntop_roundtrip[OF p, of 32] p show ?thesis by simp
qed



end
